theory Spec2Isabelle
  imports Main "HOL-Library.Word"
begin

section \<open>Go values shared by the three files\<close>

text \<open>
  Go's \<open>int\<close> is a machine integer; it is taken at 64 bits, read as two's complement
  (\<open>sint\<close>), so \<open>n++\<close> and \<open>n--\<close> wrap around as they do in the program.
  A \<open>panic\<close> is a value: every function that can panic returns a sum whose left side is
  the panic with its message.
\<close>

type_synonym go_int = "64 word"

datatype panic = Panic string

datatype error = Error string

section \<open>ClientQueryLimiter (server\_handler.go)\<close>

text \<open>
  \<open>ClientQueryLimiter\<close> holds \<open>maxQueries\<close> and the map \<open>m\<close> from client key to the number
  of queries in flight. The field \<open>m\<close> is named \<open>m_map\<close> here.
\<close>

record ClientQueryLimiter =
  maxQueries :: go_int
  m_map :: "string \<rightharpoonup> go_int"

text \<open>
  Modelled from the spec: \<open>ConcurrentMap.TestAndSet\<close>, whose code is not among the source
  files. The spec gives the contract of the callback: it observes \<open>(value, present)\<close> and
  returns \<open>(new_value, want_update, passed)\<close>; \<open>TestAndSet\<close> returns \<open>passed\<close>. The value
  observed is \<open>None\<close> when the key is absent. When \<open>want_update\<close> holds the new value is
  stored, and a nil new value removes the entry: this is how \<open>Done\<close>, whose callback returns
  \<open>(nil, true, true)\<close> at zero, removes the entry when the count reaches 0, as the spec
  says it does. The shards and their locks make the call atomic and are not modelled. A
  panic of the callback leaves \<open>TestAndSet\<close> as a panic.
\<close>

definition TestAndSet ::
  "(string \<rightharpoonup> 'v) \<Rightarrow> string \<Rightarrow> ('v option \<Rightarrow> panic + ('v option \<times> bool \<times> bool))
     \<Rightarrow> panic + (bool \<times> (string \<rightharpoonup> 'v))" where
  "TestAndSet mp key f =
     (case f (mp key) of
        Inl p \<Rightarrow> Inl p
      | Inr (newV, wantUpdate, passed) \<Rightarrow>
          Inr (passed,
               if wantUpdate
               then (case newV of None \<Rightarrow> mp(key := None) | Some v \<Rightarrow> mp(key \<mapsto> v))
               else mp))"

text \<open>
  \<open>acquireTestAndSet(v, ok)\<close>: \<open>n\<close> is 0, or the stored value when \<open>ok\<close>; at or above
  \<open>maxQueries\<close> nothing is updated and the test fails, otherwise \<open>n + 1\<close> is stored.
\<close>

definition acquireTestAndSet ::
  "ClientQueryLimiter \<Rightarrow> go_int option \<Rightarrow> go_int option \<times> bool \<times> bool" where
  "acquireTestAndSet l v =
     (let n = (case v of None \<Rightarrow> 0 | Some x \<Rightarrow> x)
      in if maxQueries l \<le>s n then (None, False, False)
         else (Some (n + 1), True, True))"

text \<open>
  \<open>doneTestAndSet(v, ok)\<close>: panics when the value does not exist, and when \<open>n - 1\<close> is
  negative; at zero it asks for the entry to be removed, otherwise it stores \<open>n - 1\<close>.
\<close>

definition doneTestAndSet ::
  "ClientQueryLimiter \<Rightarrow> go_int option \<Rightarrow> panic + (go_int option \<times> bool \<times> bool)" where
  "doneTestAndSet l v =
     (case v of
        None \<Rightarrow> Inl (Panic ''ClientQueryLimiter doneTestAndSet: value is not exist'')
      | Some x \<Rightarrow>
          (let n = x - 1
           in if n <s 0
              then Inl (Panic ''ClientQueryLimiter doneTestAndSet: value becomes negative'')
              else if n = 0 then Inr (None, True, True)
              else Inr (Some n, True, True)))"

definition Acquire :: "ClientQueryLimiter \<Rightarrow> string \<Rightarrow> panic + (bool \<times> ClientQueryLimiter)" where
  "Acquire l key =
     (case TestAndSet (m_map l) key (\<lambda>v. Inr (acquireTestAndSet l v)) of
        Inl p \<Rightarrow> Inl p
      | Inr (passed, mp) \<Rightarrow> Inr (passed, l\<lparr>m_map := mp\<rparr>))"

definition Done :: "ClientQueryLimiter \<Rightarrow> string \<Rightarrow> panic + ClientQueryLimiter" where
  "Done l key =
     (case TestAndSet (m_map l) key (doneTestAndSet l) of
        Inl p \<Rightarrow> Inl p
      | Inr (passed, mp) \<Rightarrow> Inr (l\<lparr>m_map := mp\<rparr>))"

text \<open>\<open>NewClientQueryLimiter\<close>: the limit and a fresh, empty map.\<close>

definition NewClientQueryLimiter :: "go_int \<Rightarrow> ClientQueryLimiter" where
  "NewClientQueryLimiter mq = \<lparr>maxQueries = mq, m_map = Map.empty\<rparr>"

text \<open>The current count of a key: 0 when the key is absent.\<close>

definition count_of :: "ClientQueryLimiter \<Rightarrow> string \<Rightarrow> go_int" where
  "count_of l key = (case m_map l key of None \<Rightarrow> 0 | Some x \<Rightarrow> x)"

text \<open>
  The invariant of the limiter's map: every stored count is at least 1, an entry whose
  count would be 0 being removed.
\<close>

definition counts_positive :: "ClientQueryLimiter \<Rightarrow> bool" where
  "counts_positive l = (\<forall>key v. m_map l key = Some v \<longrightarrow> 0 <s v)"

section \<open>DNS messages\<close>

text \<open>
  The message types are those of the DNS library the program imports
  (\<open>github.com/miekg/dns\<close>): \<open>Question\<close>, \<open>RR_Header\<close>, the resource records \<open>A\<close> and
  \<open>AAAA\<close>, and \<open>Msg\<close> with its header fields and four sections. \<open>net.IP\<close> is a byte
  slice. Two fields are renamed because their names are taken: \<open>RR_Header.Name\<close> is
  \<open>Hdr_Name\<close> and \<open>Msg.Id\<close> is \<open>Msg_Id\<close>. Records of any other type are \<open>RR_Other\<close>;
  the program builds none.
\<close>

type_synonym IP = "8 word list"

record dns_Question =
  Name :: string
  Qtype :: "16 word"
  Qclass :: "16 word"

record dns_RR_Header =
  Hdr_Name :: string
  Rrtype :: "16 word"
  Class :: "16 word"
  Ttl :: "32 word"
  Rdlength :: "16 word"

datatype dns_RR =
    RR_A dns_RR_Header IP
  | RR_AAAA dns_RR_Header IP
  | RR_Other dns_RR_Header "8 word list"

record dns_Msg =
  Msg_Id :: "16 word"
  Response :: bool
  Opcode :: int
  Authoritative :: bool
  Truncated :: bool
  RecursionDesired :: bool
  RecursionAvailable :: bool
  Zero :: bool
  AuthenticatedData :: bool
  CheckingDisabled :: bool
  Rcode :: int
  Compress :: bool
  Question :: "dns_Question list"
  Answer :: "dns_RR list"
  Ns :: "dns_RR list"
  Extra :: "dns_RR list"

definition TypeA :: "16 word" where "TypeA = 1"
definition TypeAAAA :: "16 word" where "TypeAAAA = 28"
definition ClassINET :: "16 word" where "ClassINET = 1"
definition OpcodeQuery :: int where "OpcodeQuery = 0"
definition RcodeSuccess :: int where "RcodeSuccess = 0"
definition RcodeServerFailure :: int where "RcodeServerFailure = 2"
definition RcodeRefused :: int where "RcodeRefused = 5"

text \<open>\<open>new(dns.Msg)\<close>: every field at its zero value.\<close>

definition new_Msg :: dns_Msg where
  "new_Msg =
     \<lparr>Msg_Id = 0, Response = False, Opcode = 0, Authoritative = False, Truncated = False,
      RecursionDesired = False, RecursionAvailable = False, Zero = False,
      AuthenticatedData = False, CheckingDisabled = False, Rcode = 0, Compress = False,
      Question = [], Answer = [], Ns = [], Extra = []\<rparr>"

text \<open>
  The library's \<open>SetReply\<close>: the reply takes the request's id and opcode, is marked a
  response with rcode success, copies the \<open>rd\<close> and \<open>cd\<close> bits of a standard query, and
  carries the request's first question when there is one. It leaves the other sections
  as they are.
\<close>

definition SetReply :: "dns_Msg \<Rightarrow> dns_Msg \<Rightarrow> dns_Msg" where
  "SetReply d request =
     (let d1 = d\<lparr>Msg_Id := Msg_Id request, Response := True, Opcode := Opcode request\<rparr>;
          d2 = (if Opcode d1 = OpcodeQuery
                then d1\<lparr>RecursionDesired := RecursionDesired request,
                        CheckingDisabled := CheckingDisabled request\<rparr>
                else d1);
          d3 = d2\<lparr>Rcode := RcodeSuccess\<rparr>
      in if 0 < length (Question request)
         then d3\<lparr>Question := [Question request ! 0]\<rparr>
         else d3)"

text \<open>\<open>make(net.IP, n)\<close> and the builtin \<open>copy(dst, src)\<close> on byte slices.\<close>

definition make_IP :: "nat \<Rightarrow> IP" where
  "make_IP n = replicate n 0"

definition copy_bytes :: "IP \<Rightarrow> IP \<Rightarrow> IP" where
  "copy_bytes dst src =
     (let n = min (length dst) (length src) in take n src @ drop n dst)"

section \<open>The query context\<close>

text \<open>
  Modelled from the spec: \<open>handler.Context\<close> and \<open>handler.ContextStatus\<close>, whose
  declarations are not among the source files. The spec's data model gives the context
  its question, the current response (nil until a stage sets it), its status, the
  optional address of the client, and the stack of deferred actions, pushed at the end
  of the list. \<open>Q()\<close>, \<open>R()\<close>, \<open>Status()\<close> and \<open>From()\<close> read the fields. The client address
  is kept as its textual form, the only thing the program asks of it
  (\<open>addr.String()\<close>); a deferred action is named by a number. The \<open>info\<close> field serves
  logging only and is left out, as is the logger.
\<close>

datatype ContextStatus =
    ContextStatusUnhandled
  | ContextStatusResponded
  | ContextStatusRejected
  | ContextStatusDropped
  | ContextStatusServerFailed

type_synonym action = nat

record Context =
  question :: dns_Msg
  response :: "dns_Msg option"
  status :: ContextStatus
  from_addr :: "string option"
  deferred :: "action list"

text \<open>
  Modelled from the spec: \<open>Context.SetResponse(r, status)\<close> stores the response and the
  status.
\<close>

definition SetResponse :: "dns_Msg \<Rightarrow> ContextStatus \<Rightarrow> Context \<Rightarrow> Context" where
  "SetResponse msg st c = c\<lparr>response := Some msg, status := st\<rparr>"

section \<open>The hosts plugin (hosts.go)\<close>

record ipRecord =
  ipv4 :: "IP list"
  ipv6 :: "IP list"

text \<open>
  \<open>hostsContainer\<close> holds the matcher. The matcher's code (\<open>domain.Matcher\<close>) is not among
  the source files: its \<open>Match(fqdn)\<close>, which returns the record stored for the name and
  whether there is one, is a parameter.
\<close>

record hostsContainer =
  matcher :: "string \<Rightarrow> ipRecord option"

text \<open>
  The two \<open>range\<close> loops of \<open>matchAndSet\<close>: each address is copied into a fresh slice and
  appended to the answer section under a header with the query name, the record type,
  class INET and TTL 3600.
\<close>

definition new_A :: "string \<Rightarrow> IP \<Rightarrow> dns_RR" where
  "new_A fqdn ip =
     (let ipCopy = copy_bytes (make_IP (length ip)) ip
      in RR_A \<lparr>Hdr_Name = fqdn, Rrtype = TypeA, Class = ClassINET, Ttl = 3600, Rdlength = 0\<rparr>
              ipCopy)"

definition new_AAAA :: "string \<Rightarrow> IP \<Rightarrow> dns_RR" where
  "new_AAAA fqdn ip =
     (let ipCopy = copy_bytes (make_IP (length ip)) ip
      in RR_AAAA \<lparr>Hdr_Name = fqdn, Rrtype = TypeAAAA, Class = ClassINET, Ttl = 3600,
                  Rdlength = 0\<rparr>
                 ipCopy)"

fun append_ipv4 :: "string \<Rightarrow> IP list \<Rightarrow> dns_Msg \<Rightarrow> dns_Msg" where
  "append_ipv4 fqdn [] msg = msg"
| "append_ipv4 fqdn (ip # ips) msg =
     append_ipv4 fqdn ips (msg\<lparr>Answer := Answer msg @ [new_A fqdn ip]\<rparr>)"

fun append_ipv6 :: "string \<Rightarrow> IP list \<Rightarrow> dns_Msg \<Rightarrow> dns_Msg" where
  "append_ipv6 fqdn [] msg = msg"
| "append_ipv6 fqdn (ip # ips) msg =
     append_ipv6 fqdn ips (msg\<lparr>Answer := Answer msg @ [new_AAAA fqdn ip]\<rparr>)"

definition matchAndSet :: "hostsContainer \<Rightarrow> Context \<Rightarrow> bool \<times> Context" where
  "matchAndSet h qCtx =
     (if length (Question (question qCtx)) \<noteq> 1 then (False, qCtx)
      else
        let typ = Qtype (Question (question qCtx) ! 0);
            fqdn = Name (Question (question qCtx) ! 0)
        in case matcher h fqdn of
             None \<Rightarrow> (False, qCtx)
           | Some rec \<Rightarrow>
               if typ = TypeA then
                 (if length (ipv4 rec) \<noteq> 0
                  then (True,
                        SetResponse
                          (append_ipv4 fqdn (ipv4 rec) (SetReply new_Msg (question qCtx)))
                          ContextStatusResponded qCtx)
                  else (False, qCtx))
               else if typ = TypeAAAA then
                 (if length (ipv6 rec) \<noteq> 0
                  then (True,
                        SetResponse
                          (append_ipv6 fqdn (ipv6 rec) (SetReply new_Msg (question qCtx)))
                          ContextStatusResponded qCtx)
                  else (False, qCtx))
               else (False, qCtx))"

text \<open>\<open>ExecES\<close> returns \<open>(earlyStop, err)\<close> and the context as \<open>matchAndSet\<close> left it.\<close>

definition ExecES :: "hostsContainer \<Rightarrow> Context \<Rightarrow> bool \<times> error option \<times> Context" where
  "ExecES h qCtx = (let (matched, qCtx') = matchAndSet h qCtx in (matched, None, qCtx'))"

text \<open>
  \<open>parseIP\<close>. The three functions of Go's \<open>net\<close> package it calls are parameters:
  \<open>ParseIP\<close> (nil when the string is no address), \<open>To4\<close> and \<open>To16\<close> (nil when the
  address has no such form). The loop returns at the first string that fails.
\<close>

record net_pkg =
  ParseIP :: "string \<Rightarrow> IP option"
  To4 :: "IP \<Rightarrow> IP option"
  To16 :: "IP \<Rightarrow> IP option"

fun parseIP_range ::
  "net_pkg \<Rightarrow> string list \<Rightarrow> ipRecord \<Rightarrow> ipRecord option \<times> bool \<times> error option" where
  "parseIP_range net [] record = (Some record, True, None)"
| "parseIP_range net (ipStr # rest) record =
     (case ParseIP net ipStr of
        None \<Rightarrow> (None, False, Some (Error (''invalid ip addr '' @ ipStr)))
      | Some ip \<Rightarrow>
          (case To4 net ip of
             Some v4 \<Rightarrow> parseIP_range net rest (record\<lparr>ipv4 := ipv4 record @ [v4]\<rparr>)
           | None \<Rightarrow>
               (case To16 net ip of
                  Some v6 \<Rightarrow> parseIP_range net rest (record\<lparr>ipv6 := ipv6 record @ [v6]\<rparr>)
                | None \<Rightarrow>
                    (None, False, Some (Error (ipStr @ '' is not an ipv4 or ipv6 addr''))))))"

definition parseIP :: "net_pkg \<Rightarrow> string list \<Rightarrow> ipRecord option \<times> bool \<times> error option" where
  "parseIP net s =
     (if length s = 0 then (None, False, None)
      else parseIP_range net s \<lparr>ipv4 = [], ipv6 = []\<rparr>)"

section \<open>The server handler (server\_handler.go)\<close>

text \<open>
  What an execution does outside the query context and the limiters is returned as a
  list of events, in order: the walk of the Entry sequence, each deferred action that is
  run, and each message handed to the \<open>ResponseWriter\<close>. An error of \<open>Write\<close> is only
  logged, so the closure \<open>write\<close> is the event alone.
\<close>

datatype event = Walked | Ran action | Wrote dns_Msg

text \<open>
  Modelled from the spec: \<open>ConcurrentLimiter\<close>, the global semaphore, whose code is not
  among the source files. It is a pool of tokens: receiving from \<open>Wait()\<close> takes one,
  \<open>Done()\<close> releases exactly one. The model counts the tokens handed out.
\<close>

record ConcurrentLimiter =
  held :: int

definition take_token :: "ConcurrentLimiter \<Rightarrow> ConcurrentLimiter" where
  "take_token lim = lim\<lparr>held := held lim + 1\<rparr>"

definition limiter_Done :: "ConcurrentLimiter \<Rightarrow> ConcurrentLimiter" where
  "limiter_Done lim = lim\<lparr>held := held lim - 1\<rparr>"

text \<open>
  The \<open>select\<close> of \<open>ServeDNS\<close> waits for a token and for the end of the query's \<open>ctx\<close>;
  which of the two comes first is decided outside the handler and is an input.
\<close>

datatype select_case = Token | CtxDone

text \<open>
  \<open>DefaultServerHandler\<close>: the two limiters, each nil when there is no limit. They are
  shared objects that \<open>ServeDNS\<close> changes, so \<open>ServeDNS\<close> returns the handler as it
  leaves it. The \<open>config\<close> field holds the logger and the Entry; the Entry is the
  pipeline below.
\<close>

record DefaultServerHandler =
  limiter :: "ConcurrentLimiter option"
  clientLimiter :: "ClientQueryLimiter option"

text \<open>
  The pipeline behind the handler is not among the source files and is a parameter:
  \<open>WalkExecutableCmd\<close> on the configured Entry, which returns an error or nil and leaves
  the context as the stages made it (response, status, deferred actions pushed), and
  \<open>Exec_deferred\<close>, what each deferred action does when it is run. The spec lets a deferred
  action change the response but not the status.
\<close>

record Pipeline =
  WalkExecutableCmd :: "Context \<Rightarrow> error option \<times> Context"
  Exec_deferred :: "action \<Rightarrow> dns_Msg option \<Rightarrow> error option \<times> dns_Msg option"

text \<open>
  Modelled from the spec: \<open>Context.ExecDefer\<close>, whose code is not among the source files.
  The spec has it pop the deferred actions and run them in LIFO order, each once, none
  retried after an error: while the stack is not empty, the action pushed last is taken
  off and run on the response. \<open>execEntry\<close> returns what \<open>ExecDefer\<close> returns, an error
  or nil: the model returns the error of the first action that failed.
\<close>

function pop_deferred ::
  "Pipeline \<Rightarrow> error option \<times> event list \<times> Context \<Rightarrow> error option \<times> event list \<times> Context" where
  "pop_deferred p (err, evs, qCtx) =
     (if deferred qCtx = [] then (err, evs, qCtx)
      else
        let a = last (deferred qCtx);
            popped = qCtx\<lparr>deferred := butlast (deferred qCtx)\<rparr>;
            res = Exec_deferred p a (response popped)
        in pop_deferred p
             (if err = None then fst res else err,
              evs @ [Ran a],
              popped\<lparr>response := snd res\<rparr>))"
  by pat_completeness auto
termination
  by (relation "measure (\<lambda>(p, err, evs, qCtx). length (deferred qCtx))") auto

declare pop_deferred.simps [simp del]

definition ExecDefer :: "Pipeline \<Rightarrow> Context \<Rightarrow> error option \<times> event list \<times> Context" where
  "ExecDefer p qCtx = pop_deferred p (None, [], qCtx)"

text \<open>\<open>execEntry\<close>: the walk; on an error, that error; otherwise \<open>ExecDefer\<close>.\<close>

definition execEntry :: "Pipeline \<Rightarrow> Context \<Rightarrow> error option \<times> event list \<times> Context" where
  "execEntry p qCtx =
     (let (err, qCtx') = WalkExecutableCmd p qCtx
      in if err \<noteq> None then (err, [Walked], qCtx')
         else let (err', evs, qCtx'') = ExecDefer p qCtx'
              in (err', Walked # evs, qCtx''))"

text \<open>Lines 115 to 134 of \<open>ServeDNS\<close>: the entry is executed and the reply chosen.\<close>

definition serve_entry :: "Pipeline \<Rightarrow> Context \<Rightarrow> event list \<times> Context" where
  "serve_entry p qCtx0 =
     (let (err, evs, qCtx) = execEntry p qCtx0;
          r = (if err \<noteq> None \<or> status qCtx = ContextStatusServerFailed
               then Some ((SetReply new_Msg (question qCtx))\<lparr>Rcode := RcodeServerFailure\<rparr>)
               else response qCtx)
      in case r of
           None \<Rightarrow> (evs, qCtx)
         | Some msg \<Rightarrow> (evs @ [Wrote msg], qCtx))"

text \<open>
  Lines 105 to 113: with a global limiter the \<open>select\<close> either takes a token, whose
  release is deferred to the return of \<open>ServeDNS\<close>, or sees \<open>ctx\<close> done and returns.
\<close>

definition serve_limited ::
  "Pipeline \<Rightarrow> select_case \<Rightarrow> DefaultServerHandler \<Rightarrow> Context
     \<Rightarrow> DefaultServerHandler \<times> event list \<times> Context" where
  "serve_limited p sel h qCtx =
     (case limiter h of
        None \<Rightarrow> (let (evs, qCtx') = serve_entry p qCtx in (h, evs, qCtx'))
      | Some lim \<Rightarrow>
          (case sel of
             CtxDone \<Rightarrow> (h, [], qCtx)
           | Token \<Rightarrow>
               (let h1 = h\<lparr>limiter := Some (take_token lim)\<rparr>;
                    (evs, qCtx') = serve_entry p qCtx
                in (h1\<lparr>limiter := map_option limiter_Done (limiter h1)\<rparr>, evs, qCtx'))))"

text \<open>
  \<open>ServeDNS\<close>. With a client limiter and a client address, \<open>Acquire\<close> decides: refused,
  the REFUSED reply is written and the handler returns; passed, \<open>Done(key)\<close> is deferred
  to the return. The result holds the panic, if the deferred \<open>Done\<close> raised one, the
  handler and the context as they are left, and the events of the execution.
\<close>

record Served =
  panicked :: "panic option"
  handler :: DefaultServerHandler
  events :: "event list"
  ctx :: Context

definition ServeDNS ::
  "Pipeline \<Rightarrow> select_case \<Rightarrow> DefaultServerHandler \<Rightarrow> Context \<Rightarrow> Served" where
  "ServeDNS p sel h qCtx =
     (case clientLimiter h of
        None \<Rightarrow>
          (let (h', evs, qCtx') = serve_limited p sel h qCtx
           in \<lparr>panicked = None, handler = h', events = evs, ctx = qCtx'\<rparr>)
      | Some l \<Rightarrow>
          (case from_addr qCtx of
             None \<Rightarrow>
               (let (h', evs, qCtx') = serve_limited p sel h qCtx
                in \<lparr>panicked = None, handler = h', events = evs, ctx = qCtx'\<rparr>)
           | Some key \<Rightarrow>
               (case Acquire l key of
                  Inl pn \<Rightarrow> \<lparr>panicked = Some pn, handler = h, events = [], ctx = qCtx\<rparr>
                | Inr (passed, l') \<Rightarrow>
                    if passed \<noteq> True
                    then \<lparr>panicked = None, handler = h\<lparr>clientLimiter := Some l'\<rparr>,
                          events = [Wrote ((SetReply new_Msg (question qCtx))
                                            \<lparr>Rcode := RcodeRefused\<rparr>)],
                          ctx = qCtx\<rparr>
                    else
                      (let (h', evs, qCtx') =
                             serve_limited p sel (h\<lparr>clientLimiter := Some l'\<rparr>) qCtx
                       in case clientLimiter h' of
                            None \<Rightarrow>
                              \<lparr>panicked = None, handler = h', events = evs, ctx = qCtx'\<rparr>
                          | Some l'' \<Rightarrow>
                              (case Done l'' key of
                                 Inl pn \<Rightarrow>
                                   \<lparr>panicked = Some pn, handler = h', events = evs,
                                    ctx = qCtx'\<rparr>
                               | Inr l3 \<Rightarrow>
                                   \<lparr>panicked = None, handler = h'\<lparr>clientLimiter := Some l3\<rparr>,
                                    events = evs, ctx = qCtx'\<rparr>)))))"

text \<open>The messages written and the deferred actions run, in order, read off the events.\<close>

fun written :: "event list \<Rightarrow> dns_Msg list" where
  "written [] = []"
| "written (Wrote msg # es) = msg # written es"
| "written (e # es) = written es"

fun ran :: "event list \<Rightarrow> action list" where
  "ran [] = []"
| "ran (Ran a # es) = a # ran es"
| "ran (e # es) = ran es"

text \<open>
  The two admission stages as conditions on the input. A query passes the per-client
  stage when there is no client limiter, or no client address, or \<open>Acquire\<close> on the
  address's key returns true; it passes the global stage when there is no global limiter
  or the \<open>select\<close> takes a token.
\<close>

definition passes_client :: "DefaultServerHandler \<Rightarrow> Context \<Rightarrow> bool" where
  "passes_client h qCtx =
     (case clientLimiter h of
        None \<Rightarrow> True
      | Some l \<Rightarrow>
          (case from_addr qCtx of
             None \<Rightarrow> True
           | Some key \<Rightarrow>
               (case Acquire l key of Inl pn \<Rightarrow> False | Inr (passed, l') \<Rightarrow> passed)))"

definition passes_global :: "select_case \<Rightarrow> DefaultServerHandler \<Rightarrow> bool" where
  "passes_global sel h = (case limiter h of None \<Rightarrow> True | Some lim \<Rightarrow> sel = Token)"

text \<open>The SERVFAIL and REFUSED replies that \<open>ServeDNS\<close> builds for a question.\<close>

definition servfail_reply :: "dns_Msg \<Rightarrow> dns_Msg" where
  "servfail_reply q = (SetReply new_Msg q)\<lparr>Rcode := RcodeServerFailure\<rparr>"

definition refused_reply :: "dns_Msg \<Rightarrow> dns_Msg" where
  "refused_reply q = (SetReply new_Msg q)\<lparr>Rcode := RcodeRefused\<rparr>"

section \<open>Example inputs\<close>

text \<open>
  The hosts file of the spec's first boundary scenario, \<open>example.com 1.2.3.4 5.6.7.8\<close>,
  with a second name that has one IPv6 address, and a query context for a name and a
  query type.
\<close>

definition example_hosts :: hostsContainer where
  "example_hosts =
     \<lparr>matcher =
        (\<lambda>fqdn. if fqdn = ''example.com.''
                then Some \<lparr>ipv4 = [[1, 2, 3, 4], [5, 6, 7, 8]], ipv6 = []\<rparr>
                else if fqdn = ''v6.example.com.''
                then Some \<lparr>ipv4 = [],
                           ipv6 = [[32, 1, 13, 184, 0, 0, 0, 0, 0, 0, 0, 0, 0, 0, 0, 1]]\<rparr>
                else None)\<rparr>"

definition example_query :: "string \<Rightarrow> 16 word \<Rightarrow> dns_Msg" where
  "example_query fqdn typ =
     new_Msg\<lparr>Msg_Id := 7, RecursionDesired := True,
             Question := [\<lparr>Name = fqdn, Qtype = typ, Qclass = ClassINET\<rparr>]\<rparr>"

definition example_ctx :: "string \<Rightarrow> 16 word \<Rightarrow> Context" where
  "example_ctx fqdn typ =
     \<lparr>question = example_query fqdn typ, response = None, status = ContextStatusUnhandled,
      from_addr = Some ''192.0.2.1:53'', deferred = []\<rparr>"

text \<open>
  A pipeline in which a stage answers the question and pushes the deferred actions 1 and
  2, after which the walk returns \<open>werr\<close>; deferred action 1 returns \<open>derr\<close> when it is
  run and action 2 succeeds. A handler without limits, and one with a global limiter
  and a per-client limit of one query, given the clients' counts.
\<close>

definition example_pipeline :: "error option \<Rightarrow> error option \<Rightarrow> Pipeline" where
  "example_pipeline werr derr =
     \<lparr>WalkExecutableCmd =
        (\<lambda>qCtx. (werr,
                 qCtx\<lparr>response := Some (SetReply new_Msg (question qCtx)),
                      status := ContextStatusResponded,
                      deferred := deferred qCtx @ [1, 2]\<rparr>)),
      Exec_deferred = (\<lambda>a resp. (if a = 1 then derr else None, resp))\<rparr>"

definition unlimited_handler :: DefaultServerHandler where
  "unlimited_handler = \<lparr>limiter = None, clientLimiter = None\<rparr>"

definition limited_handler :: "(string \<rightharpoonup> go_int) \<Rightarrow> DefaultServerHandler" where
  "limited_handler counts =
     \<lparr>limiter = Some \<lparr>held = 1\<rparr>, clientLimiter = Some \<lparr>maxQueries = 1, m_map = counts\<rparr>\<rparr>"



section \<open>The per-client limiter: Acquire and Done\<close>

lemma sint_succ: "n <s (mx::go_int) \<Longrightarrow> sint (n + 1) = sint n + 1"
proof -
  assume a: "n <s mx"
  have "sint n < sint mx" using a by (simp add: word_sless_alt)
  moreover have "sint mx < 2 ^ 63" using sint_lt [of mx] by simp
  moreover have "- (2 ^ 63) \<le> sint n" using sint_ge [of n] by simp
  ultimately show ?thesis
    by (simp add: sint_word_ariths signed_take_bit_int_eq_self)
qed

lemma sint_pred: "- (2 ^ 63) < sint (v::go_int) \<Longrightarrow> sint (v - 1) = sint v - 1"
proof -
  assume a: "- (2 ^ 63) < sint v"
  have "sint v < 2 ^ 63" using sint_lt [of v] by simp
  with a show ?thesis
    by (simp add: sint_word_ariths signed_take_bit_int_eq_self)
qed

lemma Acquire_eq:
  "Acquire l key =
     Inr (if maxQueries l \<le>s count_of l key then (False, l)
          else (True, l\<lparr>m_map := (m_map l)(key \<mapsto> count_of l key + 1)\<rparr>))"
  by (simp add: Acquire_def TestAndSet_def acquireTestAndSet_def count_of_def Let_def)

lemma Done_Some:
  "m_map l key = Some v \<Longrightarrow>
   Done l key =
     (if v - 1 <s 0 then Inl (Panic ''ClientQueryLimiter doneTestAndSet: value becomes negative'')
      else if v - 1 = 0 then Inr (l\<lparr>m_map := (m_map l)(key := None)\<rparr>)
      else Inr (l\<lparr>m_map := (m_map l)(key \<mapsto> v - 1)\<rparr>))"
  by (simp add: Done_def TestAndSet_def doneTestAndSet_def Let_def)

lemma Done_None:
  "m_map l key = None \<Longrightarrow>
   Done l key = Inl (Panic ''ClientQueryLimiter doneTestAndSet: value is not exist'')"
  by (simp add: Done_def TestAndSet_def doneTestAndSet_def)

text \<open>
  C5. \<open>Acquire(key)\<close> never panics. When the current count of the key (0 if the key is
  absent) is at or above \<open>maxQueries\<close> it returns false and the limiter is unchanged;
  otherwise it returns true and the key's count is one more than before, without
  wrap-around; no other key changes.
\<close>

theorem Acquire_count:
  "Acquire l key =
     Inr (if sint (maxQueries l) \<le> sint (count_of l key) then (False, l)
          else (True, l\<lparr>m_map := (m_map l)(key \<mapsto> count_of l key + 1)\<rparr>))
   \<and> (sint (count_of l key) < sint (maxQueries l) \<longrightarrow>
        sint (count_of l key + 1) = sint (count_of l key) + 1)"
proof
  show "Acquire l key =
     Inr (if sint (maxQueries l) \<le> sint (count_of l key) then (False, l)
          else (True, l\<lparr>m_map := (m_map l)(key \<mapsto> count_of l key + 1)\<rparr>))"
    by (simp add: Acquire_eq word_sle_eq)
  show "sint (count_of l key) < sint (maxQueries l) \<longrightarrow>
        sint (count_of l key + 1) = sint (count_of l key) + 1"
    using sint_succ [of "count_of l key" "maxQueries l"] by (simp add: word_sless_alt)
qed

theorem Acquire_count_witness:
  "sint (count_of \<lparr>maxQueries = 2, m_map = [''192.0.2.1:53'' \<mapsto> 1]\<rparr> ''192.0.2.1:53'')
     < sint (2 :: go_int)
   \<and> sint (1 + 1 :: go_int) = sint (1 :: go_int) + 1
   \<and> Acquire \<lparr>maxQueries = 2, m_map = [''192.0.2.1:53'' \<mapsto> 1]\<rparr> ''192.0.2.1:53''
       = Inr (True, \<lparr>maxQueries = 2, m_map = [''192.0.2.1:53'' \<mapsto> 2]\<rparr>)
   \<and> Acquire \<lparr>maxQueries = 2, m_map = [''192.0.2.1:53'' \<mapsto> 2]\<rparr> ''192.0.2.1:53''
       = Inr (False, \<lparr>maxQueries = 2, m_map = [''192.0.2.1:53'' \<mapsto> 2]\<rparr>)"
  using Acquire_count [of "\<lparr>maxQueries = 2, m_map = [''192.0.2.1:53'' \<mapsto> 1]\<rparr>" "''192.0.2.1:53''"]
    Acquire_count [of "\<lparr>maxQueries = 2, m_map = [''192.0.2.1:53'' \<mapsto> 2]\<rparr>" "''192.0.2.1:53''"]
  by (simp add: count_of_def)

text \<open>
  C6. \<open>Done(key)\<close> panics when the key is absent. For a stored count \<open>v\<close> (any value but
  the least 64-bit integer, where \<open>n--\<close> wraps) it panics when \<open>v - 1\<close> is below 0,
  removes the entry when \<open>v - 1\<close> is 0, and otherwise stores \<open>v - 1\<close>, one less than
  before.
\<close>

theorem Done_count:
  "(m_map l key = None \<longrightarrow>
      Done l key = Inl (Panic ''ClientQueryLimiter doneTestAndSet: value is not exist''))
   \<and> (\<forall>v. m_map l key = Some v \<and> - (2 ^ 63) < sint v \<longrightarrow>
        sint (v - 1) = sint v - 1
        \<and> Done l key =
            (if sint v - 1 < 0
             then Inl (Panic ''ClientQueryLimiter doneTestAndSet: value becomes negative'')
             else if sint v - 1 = 0 then Inr (l\<lparr>m_map := (m_map l)(key := None)\<rparr>)
             else Inr (l\<lparr>m_map := (m_map l)(key \<mapsto> v - 1)\<rparr>)))"
proof (intro conjI allI impI)
  assume "m_map l key = None"
  then show "Done l key = Inl (Panic ''ClientQueryLimiter doneTestAndSet: value is not exist'')"
    by (rule Done_None)
next
  fix v assume a: "m_map l key = Some v \<and> - (2 ^ 63) < sint v"
  then show p: "sint (v - 1) = sint v - 1" by (simp add: sint_pred)
  have z: "(v - 1 = 0) = (sint (v - 1) = 0)" by (simp only: signed_eq_0_iff)
  from a show "Done l key =
            (if sint v - 1 < 0
             then Inl (Panic ''ClientQueryLimiter doneTestAndSet: value becomes negative'')
             else if sint v - 1 = 0 then Inr (l\<lparr>m_map := (m_map l)(key := None)\<rparr>)
             else Inr (l\<lparr>m_map := (m_map l)(key \<mapsto> v - 1)\<rparr>))"
    unfolding p [symmetric] by (simp only: Done_Some z word_sless_alt sint_0)
qed

theorem Done_count_witness:
  "Map.empty ''192.0.2.1:53'' = (None :: go_int option)
   \<and> Done \<lparr>maxQueries = 2, m_map = Map.empty\<rparr> ''192.0.2.1:53''
       = Inl (Panic ''ClientQueryLimiter doneTestAndSet: value is not exist'')
   \<and> [''192.0.2.1:53'' \<mapsto> 2 :: go_int] ''192.0.2.1:53'' = Some 2
   \<and> - (2 ^ 63) < sint (2 :: go_int)
   \<and> Done \<lparr>maxQueries = 2, m_map = [''192.0.2.1:53'' \<mapsto> 2]\<rparr> ''192.0.2.1:53''
       = Inr \<lparr>maxQueries = 2, m_map = [''192.0.2.1:53'' \<mapsto> 1]\<rparr>
   \<and> Done \<lparr>maxQueries = 2, m_map = [''192.0.2.1:53'' \<mapsto> 1]\<rparr> ''192.0.2.1:53''
       = Inr \<lparr>maxQueries = 2, m_map = Map.empty\<rparr>
   \<and> Done \<lparr>maxQueries = 2, m_map = [''192.0.2.1:53'' \<mapsto> 0]\<rparr> ''192.0.2.1:53''
       = Inl (Panic ''ClientQueryLimiter doneTestAndSet: value becomes negative'')"
  using Done_count [of "\<lparr>maxQueries = 2, m_map = Map.empty\<rparr>" "''192.0.2.1:53''"]
    Done_count [of "\<lparr>maxQueries = 2, m_map = [''192.0.2.1:53'' \<mapsto> 2]\<rparr>" "''192.0.2.1:53''"]
    Done_count [of "\<lparr>maxQueries = 2, m_map = [''192.0.2.1:53'' \<mapsto> 1]\<rparr>" "''192.0.2.1:53''"]
    Done_count [of "\<lparr>maxQueries = 2, m_map = [''192.0.2.1:53'' \<mapsto> 0]\<rparr>" "''192.0.2.1:53''"]
  by simp

text \<open>
  The limiter keeps its invariant: a new limiter has it, and \<open>Acquire\<close> and \<open>Done\<close>
  preserve it, so no count below 1 is ever stored.
\<close>

lemma NewClientQueryLimiter_positive: "counts_positive (NewClientQueryLimiter mq)"
  by (simp add: counts_positive_def NewClientQueryLimiter_def)

lemma count_of_nonneg: "counts_positive l \<Longrightarrow> 0 \<le> sint (count_of l key)"
  by (cases "m_map l key")
     (auto simp add: counts_positive_def count_of_def word_sless_alt dest!: spec [of _ key])

lemma Acquire_positive:
  assumes "counts_positive l" and "Acquire l key = Inr (passed, l')"
  shows "counts_positive l'"
proof (cases "maxQueries l \<le>s count_of l key")
  case True
  then show ?thesis using assms by (simp add: Acquire_eq)
next
  case False
  then have lt: "count_of l key <s maxQueries l"
    by (simp add: word_sle_eq word_sless_alt)
  have "0 < sint (count_of l key + 1)"
    using sint_succ [OF lt] count_of_nonneg [OF assms(1), of key] by simp
  then have pos: "0 <s count_of l key + 1" by (simp add: word_sless_alt)
  from False assms(2) have l': "l' = l\<lparr>m_map := (m_map l)(key \<mapsto> count_of l key + 1)\<rparr>"
    by (simp add: Acquire_eq)
  show ?thesis
    using assms(1) pos by (simp add: l' counts_positive_def)
qed

lemma Done_positive:
  assumes "counts_positive l" and "Done l key = Inr l'"
  shows "counts_positive l'"
proof (cases "m_map l key")
  case None
  then show ?thesis using assms(2) by (simp add: Done_None)
next
  case (Some v)
  from assms(2) have "\<not> v - 1 <s 0"
    by (simp add: Done_Some [OF Some] split: if_splits)
  then have "0 \<le> sint (v - 1)" by (simp add: word_sless_alt)
  moreover have "(v - 1 = 0) = (sint (v - 1) = 0)" by (simp only: signed_eq_0_iff)
  ultimately have "v - 1 \<noteq> 0 \<Longrightarrow> 0 <s v - 1"
    by (simp add: word_sless_alt)
  then show ?thesis
    using assms by (auto simp add: Done_Some [OF Some] counts_positive_def split: if_splits)
qed

section \<open>The hosts plugin: ExecES and parseIP\<close>

lemma copy_bytes_make: "copy_bytes (make_IP (length ip)) ip = ip"
  by (simp add: copy_bytes_def make_IP_def)

lemma append_ipv4_eq:
  "append_ipv4 fqdn ips msg = msg\<lparr>Answer := Answer msg @ map (new_A fqdn) ips\<rparr>"
  by (induction ips arbitrary: msg) simp_all

lemma append_ipv6_eq:
  "append_ipv6 fqdn ips msg = msg\<lparr>Answer := Answer msg @ map (new_AAAA fqdn) ips\<rparr>"
  by (induction ips arbitrary: msg) simp_all

lemma Answer_SetReply: "Answer (SetReply d request) = Answer d"
  by (simp add: SetReply_def Let_def)

lemma SetReply_new:
  "length (Question request) = 1 \<Longrightarrow>
   SetReply new_Msg request =
     new_Msg\<lparr>Msg_Id := Msg_Id request, Response := True, Opcode := Opcode request,
             RecursionDesired := (if Opcode request = 0 then RecursionDesired request else False),
             CheckingDisabled := (if Opcode request = 0 then CheckingDisabled request else False),
             Question := Question request\<rparr>"
  by (cases "Question request")
     (simp_all add: SetReply_def Let_def new_Msg_def OpcodeQuery_def RcodeSuccess_def)

lemma TypeAAAA_neq_TypeA: "TypeAAAA \<noteq> TypeA"
  by (simp add: TypeA_def TypeAAAA_def)

text \<open>
  C3. When the question section has exactly one entry and its name matches a hosts
  record: for qtype A and a non-empty \<open>ipv4\<close> list, \<open>ExecES\<close> returns early stop with a
  nil error, the status is responded, and the response is the reply to the question
  (\<open>SetReply\<close>: the question's id, the response bit, the same question section) whose
  answer section is exactly one A record per stored address, in stored order, each with
  the question's name, class INET and TTL 3600. The same for qtype AAAA and the \<open>ipv6\<close>
  list. Nothing else of the context changes.
\<close>

theorem hosts_respond:
  assumes "length (Question (question qCtx)) = 1"
    and "matcher h (Name (Question (question qCtx) ! 0)) = Some rec"
  shows
    "(Qtype (Question (question qCtx) ! 0) = TypeA \<and> ipv4 rec \<noteq> [] \<longrightarrow>
        ExecES h qCtx =
          (True, None,
           qCtx\<lparr>response :=
                   Some ((SetReply new_Msg (question qCtx))
                         \<lparr>Answer :=
                            map (\<lambda>ip. RR_A \<lparr>Hdr_Name = Name (Question (question qCtx) ! 0),
                                            Rrtype = TypeA, Class = ClassINET, Ttl = 3600,
                                            Rdlength = 0\<rparr> ip)
                                (ipv4 rec)\<rparr>),
                 status := ContextStatusResponded\<rparr>))
     \<and> (Qtype (Question (question qCtx) ! 0) = TypeAAAA \<and> ipv6 rec \<noteq> [] \<longrightarrow>
        ExecES h qCtx =
          (True, None,
           qCtx\<lparr>response :=
                   Some ((SetReply new_Msg (question qCtx))
                         \<lparr>Answer :=
                            map (\<lambda>ip. RR_AAAA \<lparr>Hdr_Name = Name (Question (question qCtx) ! 0),
                                               Rrtype = TypeAAAA, Class = ClassINET, Ttl = 3600,
                                               Rdlength = 0\<rparr> ip)
                                (ipv6 rec)\<rparr>),
                 status := ContextStatusResponded\<rparr>))
     \<and> Msg_Id (SetReply new_Msg (question qCtx)) = Msg_Id (question qCtx)
     \<and> Response (SetReply new_Msg (question qCtx))
     \<and> Question (SetReply new_Msg (question qCtx)) = Question (question qCtx)"
proof -
  have A: "new_A fqdn = (\<lambda>ip. RR_A \<lparr>Hdr_Name = fqdn, Rrtype = TypeA, Class = ClassINET,
                                    Ttl = 3600, Rdlength = 0\<rparr> ip)" for fqdn
    by (rule ext) (simp add: new_A_def copy_bytes_make)
  have B: "new_AAAA fqdn = (\<lambda>ip. RR_AAAA \<lparr>Hdr_Name = fqdn, Rrtype = TypeAAAA, Class = ClassINET,
                                    Ttl = 3600, Rdlength = 0\<rparr> ip)" for fqdn
    by (rule ext) (simp add: new_AAAA_def copy_bytes_make)
  show ?thesis
    using assms TypeAAAA_neq_TypeA
    by (simp add: ExecES_def matchAndSet_def SetResponse_def append_ipv4_eq append_ipv6_eq
        Answer_SetReply A B SetReply_new)
       (simp add: new_Msg_def)
qed

theorem hosts_respond_witness:
  "length (Question (question (example_ctx ''example.com.'' TypeA))) = 1
   \<and> matcher example_hosts (Name (Question (question (example_ctx ''example.com.'' TypeA)) ! 0))
       = Some \<lparr>ipv4 = [[1, 2, 3, 4], [5, 6, 7, 8]], ipv6 = []\<rparr>
   \<and> Qtype (Question (question (example_ctx ''example.com.'' TypeA)) ! 0) = TypeA
   \<and> fst (ExecES example_hosts (example_ctx ''example.com.'' TypeA)) = True
   \<and> map_option Answer
        (response (snd (snd (ExecES example_hosts (example_ctx ''example.com.'' TypeA)))))
       = Some [RR_A \<lparr>Hdr_Name = ''example.com.'', Rrtype = 1, Class = 1, Ttl = 3600,
                    Rdlength = 0\<rparr> [1, 2, 3, 4],
               RR_A \<lparr>Hdr_Name = ''example.com.'', Rrtype = 1, Class = 1, Ttl = 3600,
                    Rdlength = 0\<rparr> [5, 6, 7, 8]]
   \<and> matcher example_hosts
        (Name (Question (question (example_ctx ''v6.example.com.'' TypeAAAA)) ! 0))
       = Some \<lparr>ipv4 = [], ipv6 = [[32, 1, 13, 184, 0, 0, 0, 0, 0, 0, 0, 0, 0, 0, 0, 1]]\<rparr>
   \<and> Qtype (Question (question (example_ctx ''v6.example.com.'' TypeAAAA)) ! 0) = TypeAAAA
   \<and> fst (ExecES example_hosts (example_ctx ''v6.example.com.'' TypeAAAA)) = True
   \<and> map_option Answer
        (response (snd (snd (ExecES example_hosts (example_ctx ''v6.example.com.'' TypeAAAA)))))
       = Some [RR_AAAA \<lparr>Hdr_Name = ''v6.example.com.'', Rrtype = 28, Class = 1, Ttl = 3600,
                       Rdlength = 0\<rparr> [32, 1, 13, 184, 0, 0, 0, 0, 0, 0, 0, 0, 0, 0, 0, 1]]"
  using hosts_respond [of "example_ctx ''example.com.'' TypeA" example_hosts
      "\<lparr>ipv4 = [[1, 2, 3, 4], [5, 6, 7, 8]], ipv6 = []\<rparr>"]
    hosts_respond [of "example_ctx ''v6.example.com.'' TypeAAAA" example_hosts
      "\<lparr>ipv4 = [], ipv6 = [[32, 1, 13, 184, 0, 0, 0, 0, 0, 0, 0, 0, 0, 0, 0, 1]]\<rparr>"]
  by (simp add: example_ctx_def example_query_def example_hosts_def TypeA_def TypeAAAA_def
      ClassINET_def)

text \<open>
  C4. When the hosts stage does not respond, because the question section does not have
  exactly one entry, or the name matches no record, or the qtype is neither A nor AAAA,
  or the matched record has no address of the queried family, \<open>ExecES\<close> returns no early
  stop, a nil error, and the context exactly as it was.
\<close>

theorem hosts_fall_through:
  "length (Question (question qCtx)) \<noteq> 1
   \<or> matcher h (Name (Question (question qCtx) ! 0)) = None
   \<or> (Qtype (Question (question qCtx) ! 0) \<noteq> TypeA
       \<and> Qtype (Question (question qCtx) ! 0) \<noteq> TypeAAAA)
   \<or> (\<exists>rec. matcher h (Name (Question (question qCtx) ! 0)) = Some rec
         \<and> (Qtype (Question (question qCtx) ! 0) = TypeA \<and> ipv4 rec = []
            \<or> Qtype (Question (question qCtx) ! 0) = TypeAAAA \<and> ipv6 rec = []))
   \<Longrightarrow> ExecES h qCtx = (False, None, qCtx)"
  by (auto simp add: ExecES_def matchAndSet_def Let_def TypeAAAA_neq_TypeA split: option.splits)

theorem hosts_fall_through_witness:
  "length (Question (question ((example_ctx ''example.com.'' TypeA)\<lparr>question := new_Msg\<rparr>))) = 0
   \<and> ExecES example_hosts ((example_ctx ''example.com.'' TypeA)\<lparr>question := new_Msg\<rparr>)
       = (False, None, (example_ctx ''example.com.'' TypeA)\<lparr>question := new_Msg\<rparr>)
   \<and> matcher example_hosts (Name (Question (question (example_ctx ''example.org.'' TypeA)) ! 0))
       = None
   \<and> ExecES example_hosts (example_ctx ''example.org.'' TypeA)
       = (False, None, example_ctx ''example.org.'' TypeA)
   \<and> Qtype (Question (question (example_ctx ''example.com.'' 15)) ! 0) = 15
   \<and> ExecES example_hosts (example_ctx ''example.com.'' 15)
       = (False, None, example_ctx ''example.com.'' 15)
   \<and> matcher example_hosts
        (Name (Question (question (example_ctx ''example.com.'' TypeAAAA)) ! 0))
       = Some \<lparr>ipv4 = [[1, 2, 3, 4], [5, 6, 7, 8]], ipv6 = []\<rparr>
   \<and> Qtype (Question (question (example_ctx ''example.com.'' TypeAAAA)) ! 0) = TypeAAAA
   \<and> ExecES example_hosts (example_ctx ''example.com.'' TypeAAAA)
       = (False, None, example_ctx ''example.com.'' TypeAAAA)"
proof -
  have a: "length (Question (question ((example_ctx ''example.com.'' TypeA)\<lparr>question := new_Msg\<rparr>))) = 0"
    by (simp add: new_Msg_def)
  have b: "matcher example_hosts (Name (Question (question (example_ctx ''example.org.'' TypeA)) ! 0))
       = None"
    by (simp add: example_ctx_def example_query_def example_hosts_def)
  have c: "Qtype (Question (question (example_ctx ''example.com.'' 15)) ! 0) = 15"
    by (simp add: example_ctx_def example_query_def)
  have c': "(15 :: 16 word) \<noteq> TypeA \<and> (15 :: 16 word) \<noteq> TypeAAAA"
    by (simp add: TypeA_def TypeAAAA_def)
  have d: "matcher example_hosts
        (Name (Question (question (example_ctx ''example.com.'' TypeAAAA)) ! 0))
       = Some \<lparr>ipv4 = [[1, 2, 3, 4], [5, 6, 7, 8]], ipv6 = []\<rparr>"
    by (simp add: example_ctx_def example_query_def example_hosts_def)
  have e: "Qtype (Question (question (example_ctx ''example.com.'' TypeAAAA)) ! 0) = TypeAAAA"
    by (simp add: example_ctx_def example_query_def)
  show ?thesis
    using a b c c' d e
      hosts_fall_through [of "(example_ctx ''example.com.'' TypeA)\<lparr>question := new_Msg\<rparr>"
        example_hosts]
      hosts_fall_through [of "example_ctx ''example.org.'' TypeA" example_hosts]
      hosts_fall_through [of "example_ctx ''example.com.'' 15" example_hosts]
      hosts_fall_through [of "example_ctx ''example.com.'' TypeAAAA" example_hosts]
    by simp
qed

text \<open>
  C9. \<open>ExecES\<close> of the hosts stage returns a nil error on every context: it either falls
  through, with no early stop and the context as it was, or stops early with the status
  responded.
\<close>

theorem ExecES_nil_error:
  "fst (snd (ExecES h qCtx)) = None
   \<and> (ExecES h qCtx = (False, None, qCtx)
      \<or> fst (ExecES h qCtx) = True
        \<and> status (snd (snd (ExecES h qCtx))) = ContextStatusResponded)"
  by (simp add: ExecES_def matchAndSet_def SetResponse_def Let_def split: option.splits)

text \<open>
  \<open>parseIP\<close> on an empty list of strings returns \<open>(nil, false, nil)\<close>: no record, not
  accepted, and no error, whatever the functions of the \<open>net\<close> package do. What the loader
  does with a line that is not accepted is decided in \<open>domain.BatchLoadMatcher\<close>, which is
  not among the source files.
\<close>

lemma parseIP_empty: "parseIP net [] = (None, False, None)"
  by (simp add: parseIP_def)

section \<open>The server handler: ServeDNS\<close>

text \<open>The loop of \<open>ExecDefer\<close>, one step at a time.\<close>

lemma pop_deferred_Nil: "deferred c = [] \<Longrightarrow> pop_deferred p (err, evs, c) = (err, evs, c)"
  by (subst pop_deferred.simps) simp

lemma pop_deferred_step:
  "deferred c \<noteq> [] \<Longrightarrow>
   pop_deferred p (err, evs, c) =
     pop_deferred p
       (if err = None
        then fst (Exec_deferred p (last (deferred c)) (response c))
        else err,
        evs @ [Ran (last (deferred c))],
        c\<lparr>deferred := butlast (deferred c),
          response := snd (Exec_deferred p (last (deferred c)) (response c))\<rparr>)"
  by (subst pop_deferred.simps) (simp add: Let_def)

lemma pop_deferred_events:
  "deferred c = ds \<Longrightarrow>
   fst (snd (pop_deferred p (err, evs, c))) = evs @ map Ran (rev ds)"
proof (induction ds arbitrary: err evs c rule: rev_induct)
  case Nil
  then show ?case by (simp add: pop_deferred_Nil)
next
  case (snoc a ds)
  from snoc.prems have ne: "deferred c \<noteq> []" by simp
  show ?case
    unfolding pop_deferred_step [OF ne]
    by (subst snoc.IH) (simp_all add: snoc.prems)
qed

lemma pop_deferred_ctx:
  "deferred c = ds \<Longrightarrow>
   deferred (snd (snd (pop_deferred p (err, evs, c)))) = []
   \<and> status (snd (snd (pop_deferred p (err, evs, c)))) = status c
   \<and> question (snd (snd (pop_deferred p (err, evs, c)))) = question c
   \<and> from_addr (snd (snd (pop_deferred p (err, evs, c)))) = from_addr c"
proof (induction ds arbitrary: err evs c rule: rev_induct)
  case Nil
  then show ?case by (simp add: pop_deferred_Nil)
next
  case (snoc a ds)
  from snoc.prems have ne: "deferred c \<noteq> []" by simp
  show ?case
    unfolding pop_deferred_step [OF ne]
    by (subst snoc.IH, simp add: snoc.prems)+ simp
qed

lemma ExecDefer_events: "fst (snd (ExecDefer p c)) = map Ran (rev (deferred c))"
  using pop_deferred_events [OF refl, of p None "[]" c] by (simp add: ExecDefer_def)

lemma ExecDefer_ctx:
  "deferred (snd (snd (ExecDefer p c))) = []
   \<and> status (snd (snd (ExecDefer p c))) = status c
   \<and> question (snd (snd (ExecDefer p c))) = question c
   \<and> from_addr (snd (snd (ExecDefer p c))) = from_addr c"
  using pop_deferred_ctx [OF refl, of p None "[]" c] by (simp add: ExecDefer_def)

lemma written_append: "written (xs @ ys) = written xs @ written ys"
  by (induction xs rule: written.induct) simp_all

lemma ran_append: "ran (xs @ ys) = ran xs @ ran ys"
  by (induction xs rule: ran.induct) simp_all

lemma written_Ran: "written (map Ran as) = []"
  by (induction as) simp_all

lemma ran_Ran: "ran (map Ran as) = as"
  by (induction as) simp_all

lemma ran_Wrote: "ran (map Wrote ws) = []"
  by (induction ws) simp_all

lemma written_Wrote: "written (map Wrote ws) = ws"
  by (induction ws) simp_all

text \<open>\<open>serve_entry\<close> in closed form, by what the walk returned.\<close>

lemma serve_entry_failed:
  "fst (WalkExecutableCmd p c) \<noteq> None \<Longrightarrow>
   serve_entry p c =
     ([Walked, Wrote (servfail_reply (question (snd (WalkExecutableCmd p c))))],
      snd (WalkExecutableCmd p c))"
  by (cases "WalkExecutableCmd p c")
     (auto simp add: serve_entry_def execEntry_def servfail_reply_def)

lemma serve_entry_walked:
  "fst (WalkExecutableCmd p c) = None \<Longrightarrow>
   serve_entry p c =
     (Walked # map Ran (rev (deferred (snd (WalkExecutableCmd p c)))) @
        map Wrote
          (if fst (ExecDefer p (snd (WalkExecutableCmd p c))) \<noteq> None
              \<or> status (snd (snd (ExecDefer p (snd (WalkExecutableCmd p c)))))
                  = ContextStatusServerFailed
           then [servfail_reply (question (snd (snd (ExecDefer p (snd (WalkExecutableCmd p c))))))]
           else (case response (snd (snd (ExecDefer p (snd (WalkExecutableCmd p c))))) of
                   None \<Rightarrow> [] | Some msg \<Rightarrow> [msg])),
      snd (snd (ExecDefer p (snd (WalkExecutableCmd p c)))))"
proof -
  assume w: "fst (WalkExecutableCmd p c) = None"
  obtain cw where W: "WalkExecutableCmd p c = (None, cw)"
    using w by (cases "WalkExecutableCmd p c") simp
  obtain derr evs cd where D: "ExecDefer p cw = (derr, evs, cd)"
    by (cases "ExecDefer p cw") auto
  have E: "evs = map Ran (rev (deferred cw))"
    using ExecDefer_events [of p cw] by (simp add: D)
  show ?thesis
    by (simp add: serve_entry_def execEntry_def servfail_reply_def W D E split: option.splits)
qed


text \<open>
  \<open>ServeDNS\<close> by stages: a query that passes both admission stages produces the events
  and the context of \<open>serve_entry\<close>.
\<close>

lemma serve_limited_cases:
  "serve_limited p sel h c =
     (case limiter h of
        None \<Rightarrow> (h, serve_entry p c)
      | Some lim \<Rightarrow>
          (case sel of
             CtxDone \<Rightarrow> (h, [], c)
           | Token \<Rightarrow> (h\<lparr>limiter := Some (limiter_Done (take_token lim))\<rparr>, serve_entry p c)))"
  by (simp add: serve_limited_def split: option.splits select_case.splits prod.splits)

lemma serve_limited_clientLimiter:
  "clientLimiter (fst (serve_limited p sel h c)) = clientLimiter h"
  by (simp add: serve_limited_cases split: option.splits select_case.splits)

lemma serve_limited_passed:
  "passes_global sel h \<Longrightarrow> snd (serve_limited p sel h c) = serve_entry p c"
  by (auto simp add: serve_limited_cases passes_global_def split: option.splits select_case.splits)

lemma serve_limited_with_client:
  "snd (serve_limited p sel (h\<lparr>clientLimiter := cl\<rparr>) c) = snd (serve_limited p sel h c)"
  by (simp add: serve_limited_cases split: option.splits select_case.splits)

lemma ServeDNS_events_ctx:
  "(events (ServeDNS p sel h c), ctx (ServeDNS p sel h c)) =
     (if passes_client h c then snd (serve_limited p sel h c)
      else ([Wrote (refused_reply (question c))], c))"
proof (cases "clientLimiter h")
  case None
  then show ?thesis
    by (simp add: ServeDNS_def passes_client_def split: prod.splits)
next
  case (Some l)
  note cl = Some
  show ?thesis
  proof (cases "from_addr c")
    case None
    then show ?thesis
      using cl by (simp add: ServeDNS_def passes_client_def split: prod.splits)
  next
    case (Some key)
    show ?thesis
    proof (cases "maxQueries l \<le>s count_of l key")
      case True
      then show ?thesis
        using cl Some
        by (simp add: ServeDNS_def passes_client_def Acquire_eq refused_reply_def)
    next
      case False
      obtain h' evs c' where
        L: "serve_limited p sel
              (h\<lparr>clientLimiter := Some (l\<lparr>m_map := (m_map l)(key \<mapsto> count_of l key + 1)\<rparr>)\<rparr>) c
            = (h', evs, c')"
        by (cases "serve_limited p sel
              (h\<lparr>clientLimiter := Some (l\<lparr>m_map := (m_map l)(key \<mapsto> count_of l key + 1)\<rparr>)\<rparr>) c")
           auto
      have R: "snd (serve_limited p sel h c) = (evs, c')"
        using serve_limited_with_client
          [of p sel "Some (l\<lparr>m_map := (m_map l)(key \<mapsto> count_of l key + 1)\<rparr>)" h c] L
        by simp
      show ?thesis
        using cl Some False L R
        by (simp add: ServeDNS_def passes_client_def Acquire_eq split: option.splits sum.splits)
    qed
  qed
qed

lemma ServeDNS_admitted:
  "passes_client h c \<Longrightarrow> passes_global sel h \<Longrightarrow>
   events (ServeDNS p sel h c) = fst (serve_entry p c)
   \<and> ctx (ServeDNS p sel h c) = snd (serve_entry p c)"
  using ServeDNS_events_ctx [of p sel h c] serve_limited_passed [of sel h p c]
  by (simp add: prod_eq_iff)

lemma written_serve_entry: "length (written (fst (serve_entry p c))) \<le> 1"
proof (cases "fst (WalkExecutableCmd p c) = None")
  case True
  then show ?thesis
    by (simp add: serve_entry_walked written_append written_Ran written_Wrote
        split: option.splits)
next
  case False
  then show ?thesis by (simp add: serve_entry_failed)
qed

lemma written_ServeDNS: "length (written (events (ServeDNS p sel h c))) \<le> 1"
proof -
  have "events (ServeDNS p sel h c) = [Wrote (refused_reply (question c))]
        \<or> events (ServeDNS p sel h c) = []
        \<or> events (ServeDNS p sel h c) = fst (serve_entry p c)"
    using ServeDNS_events_ctx [of p sel h c]
    by (auto simp add: serve_limited_cases prod_eq_iff split: if_splits option.splits select_case.splits)
  then show ?thesis
    using written_serve_entry [of p c] by auto
qed


text \<open>The definitions that evaluate the examples.\<close>

lemmas example_defs =
  example_pipeline_def unlimited_handler_def limited_handler_def example_ctx_def
  example_query_def passes_client_def passes_global_def

lemmas serve_defs =
  ServeDNS_def serve_limited_def serve_entry_def execEntry_def ExecDefer_def
  pop_deferred.simps Acquire_eq count_of_def

text \<open>
  C1, as the code has it. For every query admitted past the per-client and the global
  limiter: when the walk of the Entry sequence returns nil, the handler then runs the
  deferred actions of the context, each exactly once, the one pushed last first, before
  any reply is written, and the stack is left empty; when the walk returns an error,
  \<open>execEntry\<close> returns that error at once, no deferred action is run and they stay on the
  stack, and the SERVFAIL reply is written.
\<close>

theorem ServeDNS_runs_deferred:
  assumes "passes_client h qCtx" and "passes_global sel h"
  shows
    "(fst (WalkExecutableCmd p qCtx) = None \<longrightarrow>
        (\<exists>ws. events (ServeDNS p sel h qCtx) =
               Walked # map Ran (rev (deferred (snd (WalkExecutableCmd p qCtx)))) @ map Wrote ws)
        \<and> ran (events (ServeDNS p sel h qCtx)) = rev (deferred (snd (WalkExecutableCmd p qCtx)))
        \<and> deferred (ctx (ServeDNS p sel h qCtx)) = [])
     \<and> (fst (WalkExecutableCmd p qCtx) \<noteq> None \<longrightarrow>
        events (ServeDNS p sel h qCtx) =
          [Walked, Wrote (servfail_reply (question (snd (WalkExecutableCmd p qCtx))))]
        \<and> ran (events (ServeDNS p sel h qCtx)) = []
        \<and> ctx (ServeDNS p sel h qCtx) = snd (WalkExecutableCmd p qCtx))"
proof (intro conjI impI)
  note adm = ServeDNS_admitted [OF assms, of p]
  {
    assume w: "fst (WalkExecutableCmd p qCtx) = None"
    note se = serve_entry_walked [OF w]
    show "\<exists>ws. events (ServeDNS p sel h qCtx) =
               Walked # map Ran (rev (deferred (snd (WalkExecutableCmd p qCtx)))) @ map Wrote ws"
      unfolding adm [THEN conjunct1] se by (simp only: fst_conv) blast
    show "ran (events (ServeDNS p sel h qCtx)) = rev (deferred (snd (WalkExecutableCmd p qCtx)))"
      unfolding adm [THEN conjunct1] se
      by (simp only: fst_conv) (simp add: ran_append ran_Ran ran_Wrote del: map_eq_conv)
    show "deferred (ctx (ServeDNS p sel h qCtx)) = []"
      unfolding adm [THEN conjunct2] se by (simp add: ExecDefer_ctx)
  }
  {
    assume w: "fst (WalkExecutableCmd p qCtx) \<noteq> None"
    note se = serve_entry_failed [OF w]
    show "events (ServeDNS p sel h qCtx) =
          [Walked, Wrote (servfail_reply (question (snd (WalkExecutableCmd p qCtx))))]"
      unfolding adm [THEN conjunct1] se by simp
    show "ran (events (ServeDNS p sel h qCtx)) = []"
      unfolding adm [THEN conjunct1] se by simp
    show "ctx (ServeDNS p sel h qCtx) = snd (WalkExecutableCmd p qCtx)"
      unfolding adm [THEN conjunct2] se by simp
  }
qed


theorem ServeDNS_runs_deferred_witness:
  "passes_client unlimited_handler (example_ctx ''example.com.'' TypeA)
   \<and> passes_global Token unlimited_handler
   \<and> fst (WalkExecutableCmd (example_pipeline None None) (example_ctx ''example.com.'' TypeA)) = None
   \<and> deferred (snd (WalkExecutableCmd (example_pipeline None None)
                      (example_ctx ''example.com.'' TypeA))) = [1, 2]
   \<and> ran (events (ServeDNS (example_pipeline None None) Token unlimited_handler
                    (example_ctx ''example.com.'' TypeA))) = [2, 1]
   \<and> fst (WalkExecutableCmd (example_pipeline (Some (Error ''upstream'')) None)
            (example_ctx ''example.com.'' TypeA)) = Some (Error ''upstream'')
   \<and> ran (events (ServeDNS (example_pipeline (Some (Error ''upstream'')) None) Token
                    unlimited_handler (example_ctx ''example.com.'' TypeA))) = []"
  using ServeDNS_runs_deferred [of unlimited_handler "example_ctx ''example.com.'' TypeA" Token
      "example_pipeline None None"]
    ServeDNS_runs_deferred [of unlimited_handler "example_ctx ''example.com.'' TypeA" Token
      "example_pipeline (Some (Error ''upstream'')) None"]
  by (simp add: example_defs)

text \<open>
  The walk fails after a stage has pushed the deferred actions 1 and 2: LIFO order would
  run 2 and then 1, and the handler runs neither.
\<close>

theorem ServeDNS_runs_deferred_counterexample:
  "passes_client unlimited_handler (example_ctx ''example.com.'' TypeA)
   \<and> passes_global Token unlimited_handler
   \<and> fst (WalkExecutableCmd (example_pipeline (Some (Error ''upstream'')) None)
            (example_ctx ''example.com.'' TypeA)) = Some (Error ''upstream'')
   \<and> rev (deferred (snd (WalkExecutableCmd (example_pipeline (Some (Error ''upstream'')) None)
                           (example_ctx ''example.com.'' TypeA)))) = [2, 1]
   \<and> ran (events (ServeDNS (example_pipeline (Some (Error ''upstream'')) None) Token
                    unlimited_handler (example_ctx ''example.com.'' TypeA))) = []
   \<and> deferred (ctx (ServeDNS (example_pipeline (Some (Error ''upstream'')) None) Token
                      unlimited_handler (example_ctx ''example.com.'' TypeA))) = [1, 2]"
  by (simp add: example_defs serve_defs)

text \<open>
  C2, as the code has it. For every query that reaches the execution of the pipeline,
  the messages written are: the SERVFAIL reply to the question when the walk returned an
  error, or, the walk having returned nil, when \<open>ExecDefer\<close> returned an error or the
  status is server failed; otherwise the response of the context when it is not nil;
  otherwise nothing. In every execution of \<open>ServeDNS\<close> at most one message is written.
\<close>

theorem ServeDNS_reply:
  "(passes_client h qCtx \<and> passes_global sel h \<longrightarrow>
      written (events (ServeDNS p sel h qCtx)) =
        (case WalkExecutableCmd p qCtx of
           (werr, qCtx1) \<Rightarrow>
             if werr \<noteq> None then [servfail_reply (question qCtx1)]
             else
               (case ExecDefer p qCtx1 of
                  (derr, evs, qCtx2) \<Rightarrow>
                    if derr \<noteq> None \<or> status qCtx2 = ContextStatusServerFailed
                    then [servfail_reply (question qCtx2)]
                    else (case response qCtx2 of None \<Rightarrow> [] | Some msg \<Rightarrow> [msg]))))
   \<and> length (written (events (ServeDNS p sel h qCtx))) \<le> 1"
proof (intro conjI impI)
  assume a: "passes_client h qCtx \<and> passes_global sel h"
  then have adm: "events (ServeDNS p sel h qCtx) = fst (serve_entry p qCtx)"
    using ServeDNS_admitted [of h qCtx sel p] by simp
  obtain werr qCtx1 where W: "WalkExecutableCmd p qCtx = (werr, qCtx1)"
    by (cases "WalkExecutableCmd p qCtx") auto
  obtain derr evs qCtx2 where D: "ExecDefer p qCtx1 = (derr, evs, qCtx2)"
    by (cases "ExecDefer p qCtx1") auto
  show "written (events (ServeDNS p sel h qCtx)) =
        (case WalkExecutableCmd p qCtx of
           (werr, qCtx1) \<Rightarrow>
             if werr \<noteq> None then [servfail_reply (question qCtx1)]
             else
               (case ExecDefer p qCtx1 of
                  (derr, evs, qCtx2) \<Rightarrow>
                    if derr \<noteq> None \<or> status qCtx2 = ContextStatusServerFailed
                    then [servfail_reply (question qCtx2)]
                    else (case response qCtx2 of None \<Rightarrow> [] | Some msg \<Rightarrow> [msg])))"
  proof (cases "werr = None")
    case True
    then have w: "fst (WalkExecutableCmd p qCtx) = None" by (simp add: W)
    show ?thesis
      unfolding adm serve_entry_walked [OF w]
      by (simp add: W D True written_append written_Ran written_Wrote split: option.splits)
  next
    case False
    then have w: "fst (WalkExecutableCmd p qCtx) \<noteq> None" by (simp add: W)
    show ?thesis
      unfolding adm serve_entry_failed [OF w]
      using False by (simp add: W)
  qed
next
  show "length (written (events (ServeDNS p sel h qCtx))) \<le> 1"
    by (rule written_ServeDNS)
qed

theorem ServeDNS_reply_witness:
  "passes_client unlimited_handler (example_ctx ''example.com.'' TypeA)
   \<and> passes_global Token unlimited_handler
   \<and> written (events (ServeDNS (example_pipeline None None) Token unlimited_handler
                        (example_ctx ''example.com.'' TypeA)))
       = [SetReply new_Msg (example_query ''example.com.'' TypeA)]
   \<and> written (events (ServeDNS (example_pipeline (Some (Error ''upstream'')) None) Token
                        unlimited_handler (example_ctx ''example.com.'' TypeA)))
       = [servfail_reply (example_query ''example.com.'' TypeA)]"
  using ServeDNS_reply [of unlimited_handler "example_ctx ''example.com.'' TypeA" Token
      "example_pipeline None None"]
    ServeDNS_reply [of unlimited_handler "example_ctx ''example.com.'' TypeA" Token
      "example_pipeline (Some (Error ''upstream'')) None"]
  by (simp add: example_defs ExecDefer_def pop_deferred.simps)

text \<open>
  The walk returns nil with a response and the status responded, and deferred action 1
  fails: \<open>execEntry\<close> returns the error of \<open>ExecDefer\<close>, and SERVFAIL is written in place
  of the response.
\<close>

theorem ServeDNS_reply_counterexample:
  "passes_client unlimited_handler (example_ctx ''example.com.'' TypeA)
   \<and> passes_global Token unlimited_handler
   \<and> fst (WalkExecutableCmd (example_pipeline None (Some (Error ''deferred'')))
            (example_ctx ''example.com.'' TypeA)) = None
   \<and> status (ctx (ServeDNS (example_pipeline None (Some (Error ''deferred''))) Token
                    unlimited_handler (example_ctx ''example.com.'' TypeA)))
       = ContextStatusResponded
   \<and> response (ctx (ServeDNS (example_pipeline None (Some (Error ''deferred''))) Token
                      unlimited_handler (example_ctx ''example.com.'' TypeA)))
       = Some (SetReply new_Msg (example_query ''example.com.'' TypeA))
   \<and> written (events (ServeDNS (example_pipeline None (Some (Error ''deferred''))) Token
                        unlimited_handler (example_ctx ''example.com.'' TypeA)))
       = [servfail_reply (example_query ''example.com.'' TypeA)]
   \<and> servfail_reply (example_query ''example.com.'' TypeA)
       \<noteq> SetReply new_Msg (example_query ''example.com.'' TypeA)"
  by (simp add: example_defs serve_defs servfail_reply_def)
     (simp add: SetReply_def new_Msg_def RcodeServerFailure_def RcodeSuccess_def Let_def)


text \<open>
  C7. With a client limiter, a client address and \<open>Acquire\<close> on its key returning false,
  \<open>ServeDNS\<close> returns without a panic, writes exactly one message, the reply to the
  question with rcode REFUSED (5), and does nothing else, whatever the pipeline and the
  \<open>select\<close> would do: no walk of the Entry, no deferred action run, the context as it
  was, and the handler with both limiters, the global semaphore among them, as it was.
\<close>

theorem ServeDNS_refused:
  assumes "clientLimiter h = Some l" and "from_addr qCtx = Some key"
    and "Acquire l key = Inr (False, l')"
  shows "ServeDNS p sel h qCtx =
           \<lparr>panicked = None, handler = h,
            events = [Wrote (refused_reply (question qCtx))], ctx = qCtx\<rparr>
         \<and> Rcode (refused_reply (question qCtx)) = 5
         \<and> refused_reply (question qCtx) = (SetReply new_Msg (question qCtx))\<lparr>Rcode := 5\<rparr>"
proof -
  from assms(3) have "l' = l"
    by (simp add: Acquire_eq split: if_splits)
  moreover have "h\<lparr>clientLimiter := Some l\<rparr> = h"
    using assms(1) by simp
  ultimately show ?thesis
    using assms by (simp add: ServeDNS_def refused_reply_def RcodeRefused_def)
qed

theorem ServeDNS_refused_witness:
  "clientLimiter (limited_handler [''192.0.2.1:53'' \<mapsto> 1])
     = Some \<lparr>maxQueries = 1, m_map = [''192.0.2.1:53'' \<mapsto> 1]\<rparr>
   \<and> from_addr (example_ctx ''example.com.'' TypeA) = Some ''192.0.2.1:53''
   \<and> Acquire \<lparr>maxQueries = 1, m_map = [''192.0.2.1:53'' \<mapsto> 1]\<rparr> ''192.0.2.1:53''
       = Inr (False, \<lparr>maxQueries = 1, m_map = [''192.0.2.1:53'' \<mapsto> 1]\<rparr>)
   \<and> ServeDNS (example_pipeline None None) Token (limited_handler [''192.0.2.1:53'' \<mapsto> 1])
        (example_ctx ''example.com.'' TypeA)
       = \<lparr>panicked = None, handler = limited_handler [''192.0.2.1:53'' \<mapsto> 1],
          events = [Wrote (refused_reply (example_query ''example.com.'' TypeA))],
          ctx = example_ctx ''example.com.'' TypeA\<rparr>"
proof -
  have a: "clientLimiter (limited_handler [''192.0.2.1:53'' \<mapsto> 1])
             = Some \<lparr>maxQueries = 1, m_map = [''192.0.2.1:53'' \<mapsto> 1]\<rparr>"
    by (simp add: limited_handler_def)
  have b: "from_addr (example_ctx ''example.com.'' TypeA) = Some ''192.0.2.1:53''"
    by (simp add: example_ctx_def)
  have c: "Acquire \<lparr>maxQueries = 1, m_map = [''192.0.2.1:53'' \<mapsto> 1]\<rparr> ''192.0.2.1:53''
             = Inr (False, \<lparr>maxQueries = 1, m_map = [''192.0.2.1:53'' \<mapsto> 1]\<rparr>)"
    by (simp add: Acquire_eq count_of_def)
  have d: "question (example_ctx ''example.com.'' TypeA) = example_query ''example.com.'' TypeA"
    by (simp add: example_ctx_def)
  show ?thesis
    using a b c ServeDNS_refused [OF a b c, of "example_pipeline None None" Token]
    by (simp only: d)
qed

text \<open>
  The deferred \<open>Done(key)\<close> of an admitted query panics only when the count stored for
  the client was negative.
\<close>

lemma word_succ_pred: "(x + 1 :: go_int) - 1 = x"
  by simp

lemma ServeDNS_panicked:
  assumes pc: "passes_client h c"
  shows "panicked (ServeDNS p sel h c) =
     (case clientLimiter h of
        None \<Rightarrow> None
      | Some l \<Rightarrow>
          (case from_addr c of
             None \<Rightarrow> None
           | Some key \<Rightarrow>
               if count_of l key <s 0
               then Some (Panic ''ClientQueryLimiter doneTestAndSet: value becomes negative'')
               else None))"
proof (cases "clientLimiter h")
  case None
  then show ?thesis by (simp add: ServeDNS_def split: prod.splits)
next
  case (Some l)
  note cl = Some
  show ?thesis
  proof (cases "from_addr c")
    case None
    then show ?thesis using cl by (simp add: ServeDNS_def split: prod.splits)
  next
    case (Some key)
    from pc have nf: "\<not> maxQueries l \<le>s count_of l key"
      using cl Some by (simp add: passes_client_def Acquire_eq split: if_splits)
    let ?l1 = "l\<lparr>m_map := (m_map l)(key \<mapsto> count_of l key + 1)\<rparr>"
    obtain h' evs c' where
      L: "serve_limited p sel (h\<lparr>clientLimiter := Some ?l1\<rparr>) c = (h', evs, c')"
      by (cases "serve_limited p sel (h\<lparr>clientLimiter := Some ?l1\<rparr>) c") auto
    have C: "clientLimiter h' = Some ?l1"
      using serve_limited_clientLimiter [of p sel "h\<lparr>clientLimiter := Some ?l1\<rparr>" c] L
      by simp
    have D: "Done ?l1 key =
       (if count_of l key <s 0
        then Inl (Panic ''ClientQueryLimiter doneTestAndSet: value becomes negative'')
        else if count_of l key = 0 then Inr (?l1\<lparr>m_map := (m_map ?l1)(key := None)\<rparr>)
        else Inr (?l1\<lparr>m_map := (m_map ?l1)(key \<mapsto> count_of l key)\<rparr>))"
      using Done_Some [of ?l1 key "count_of l key + 1"] by (simp only: word_succ_pred) simp
    show ?thesis
      using cl Some nf L C
      by (simp add: ServeDNS_def Acquire_eq D)
  qed
qed

text \<open>
  With the limiter's invariant, \<open>ServeDNS\<close> never panics: the deferred \<open>Done(key)\<close> finds the
  count that \<open>Acquire\<close> stored.
\<close>

lemma ServeDNS_no_panic:
  assumes "clientLimiter h = None \<or> (\<exists>l. clientLimiter h = Some l \<and> counts_positive l)"
  shows "panicked (ServeDNS p sel h c) = None"
proof (cases "passes_client h c")
  case True
  show ?thesis
  proof (cases "clientLimiter h")
    case None
    then show ?thesis by (simp add: ServeDNS_panicked [OF True])
  next
    case (Some l)
    then have "counts_positive l" using assms by simp
    then have "\<not> count_of l key <s 0" for key
      using count_of_nonneg [of l key] by (simp add: word_sless_alt)
    then show ?thesis
      using Some by (simp add: ServeDNS_panicked [OF True] split: option.splits)
  qed
next
  case False
  then show ?thesis
    by (auto simp add: ServeDNS_def passes_client_def Acquire_eq split: option.splits if_splits)
qed

text \<open>
  A query that does not pass the per-client stage returns before the \<open>select\<close>: what the
  \<open>select\<close> would have seen is never read.
\<close>

lemma ServeDNS_refused_before_select:
  "\<not> passes_client h c \<Longrightarrow> ServeDNS p CtxDone h c = ServeDNS p Token h c"
  by (auto simp add: ServeDNS_def passes_client_def Acquire_eq split: option.splits if_splits)

lemma Acquire_Done_restores:
  assumes "counts_positive l" and "\<not> maxQueries l \<le>s count_of l key"
  shows "Done (l\<lparr>m_map := (m_map l)(key \<mapsto> count_of l key + 1)\<rparr>) key = Inr l"
proof (cases "m_map l key")
  case None
  then have c: "count_of l key = 0" by (simp add: count_of_def)
  have "(m_map l)(key := None) = m_map l"
    using None by (metis fun_upd_triv)
  then show ?thesis
    using Done_Some [of "l\<lparr>m_map := (m_map l)(key \<mapsto> count_of l key + 1)\<rparr>" key "count_of l key + 1"]
    by (simp add: c)
next
  case (Some v)
  then have c: "count_of l key = v" by (simp add: count_of_def)
  have pos: "0 <s v" using assms(1) Some by (simp add: counts_positive_def)
  then have nz: "v \<noteq> 0" and nn: "\<not> v <s 0"
    by (auto simp add: word_sless_alt)
  have "(m_map l)(key \<mapsto> v) = m_map l"
    using Some by (metis fun_upd_triv)
  then show ?thesis
    using Done_Some [of "l\<lparr>m_map := (m_map l)(key \<mapsto> v + 1)\<rparr>" key "v + 1"] nz nn
    by (simp add: c)
qed

text \<open>
  C8. With a global limiter, when the \<open>select\<close> of lines 105 to 113, which the queries
  that pass the per-client stage reach, sees \<open>ctx\<close> done before a token, \<open>ServeDNS\<close>
  writes no reply, does not walk the Entry and runs no deferred action: there is no event,
  and the context and the semaphore are as they were. With the client limiter in a state
  that its own operations produce, \<open>ServeDNS\<close> returns without a panic and the deferred
  \<open>Done(key)\<close> gives back what \<open>Acquire\<close> took, so the whole handler is as it was.
\<close>

theorem ServeDNS_dropped:
  assumes "limiter h = Some lim" and "passes_client h qCtx"
  shows "events (ServeDNS p CtxDone h qCtx) = []
         \<and> ctx (ServeDNS p CtxDone h qCtx) = qCtx
         \<and> limiter (handler (ServeDNS p CtxDone h qCtx)) = limiter h
         \<and> ((case clientLimiter h of None \<Rightarrow> True | Some l \<Rightarrow> counts_positive l) \<longrightarrow>
              ServeDNS p CtxDone h qCtx =
                \<lparr>panicked = None, handler = h, events = [], ctx = qCtx\<rparr>)"
proof (intro conjI impI)
  have L: "serve_limited p CtxDone h' qCtx = (h', [], qCtx)" if "limiter h' = Some lim" for h'
    using that by (simp add: serve_limited_cases)
  have ec: "events (ServeDNS p CtxDone h qCtx) = [] \<and> ctx (ServeDNS p CtxDone h qCtx) = qCtx"
    using ServeDNS_events_ctx [of p CtxDone h qCtx] assms L [of h] by simp
  from ec show "events (ServeDNS p CtxDone h qCtx) = []" by simp
  from ec show "ctx (ServeDNS p CtxDone h qCtx) = qCtx" by simp
  show "limiter (handler (ServeDNS p CtxDone h qCtx)) = limiter h"
    using assms(1)
    by (auto simp add: ServeDNS_def L Acquire_eq split: option.splits sum.splits if_splits)
  assume inv: "case clientLimiter h of None \<Rightarrow> True | Some l \<Rightarrow> counts_positive l"
  show "ServeDNS p CtxDone h qCtx = \<lparr>panicked = None, handler = h, events = [], ctx = qCtx\<rparr>"
  proof (cases "clientLimiter h")
    case None
    then show ?thesis using assms(1) by (simp add: ServeDNS_def L)
  next
    case (Some l)
    note cl = Some
    then have pos: "counts_positive l" using inv by simp
    show ?thesis
    proof (cases "from_addr qCtx")
      case None
      then show ?thesis using cl assms(1) by (simp add: ServeDNS_def L)
    next
      case (Some key)
      from assms(2) have nf: "\<not> maxQueries l \<le>s count_of l key"
        using cl Some by (simp add: passes_client_def Acquire_eq split: if_splits)
      have h: "h\<lparr>clientLimiter := Some l\<rparr> = h" using cl by simp
      show ?thesis
        using cl Some nf assms(1) h
        by (simp add: ServeDNS_def Acquire_eq L Acquire_Done_restores [OF pos nf])
    qed
  qed
qed

theorem ServeDNS_dropped_witness:
  "limiter (limited_handler [''198.51.100.7:53'' \<mapsto> 1]) = Some \<lparr>held = 1\<rparr>
   \<and> passes_client (limited_handler [''198.51.100.7:53'' \<mapsto> 1])
        (example_ctx ''example.com.'' TypeA)
   \<and> counts_positive \<lparr>maxQueries = 1, m_map = [''198.51.100.7:53'' \<mapsto> 1]\<rparr>
   \<and> ServeDNS (example_pipeline None None) CtxDone
        (limited_handler [''198.51.100.7:53'' \<mapsto> 1]) (example_ctx ''example.com.'' TypeA)
       = \<lparr>panicked = None, handler = limited_handler [''198.51.100.7:53'' \<mapsto> 1],
          events = [], ctx = example_ctx ''example.com.'' TypeA\<rparr>"
proof -
  have a: "limiter (limited_handler [''198.51.100.7:53'' \<mapsto> 1]) = Some \<lparr>held = 1\<rparr>"
    by (simp add: limited_handler_def)
  have b: "passes_client (limited_handler [''198.51.100.7:53'' \<mapsto> 1])
        (example_ctx ''example.com.'' TypeA)"
    by (simp add: limited_handler_def example_ctx_def passes_client_def Acquire_eq count_of_def
        word_sle_eq)
  have c: "counts_positive \<lparr>maxQueries = 1, m_map = [''198.51.100.7:53'' \<mapsto> 1]\<rparr>"
    by (simp add: counts_positive_def word_sless_alt)
  have d: "clientLimiter (limited_handler [''198.51.100.7:53'' \<mapsto> 1])
             = Some \<lparr>maxQueries = 1, m_map = [''198.51.100.7:53'' \<mapsto> 1]\<rparr>"
    by (simp add: limited_handler_def)
  show ?thesis
    using a b c ServeDNS_dropped [OF a b, of "example_pipeline None None"]
    by (simp add: d)
qed

end
